theory Spec2Isabelle
  imports Complex_Main
begin

section \<open>Kernel-based training tutorial: counting circuit evaluations\<close>

text \<open>
  Exceptions that reach the embedded code. \<open>OverflowError\<close> is what Python raises when
  an \<open>int\<close> too large for a double is converted to \<open>float\<close>; \<open>ValueError\<close> is what
  \<open>reshape\<close> raises for a shape of the wrong size and what the embedding template raises
  for more features than wires; \<open>IndexError\<close> is what indexing an array out of range
  raises; \<open>NameError\<close> is what reading an unassigned variable raises; \<open>RuntimeError\<close>
  is what \<open>torch\<close> raises for tensors whose shapes cannot be broadcast.
\<close>

datatype py_error = OverflowError | ValueError | IndexError | NameError | RuntimeError

text \<open>Python's \<open>int.bit_length\<close> on a non-negative integer.\<close>

fun bit_length :: "nat \<Rightarrow> nat" where
  "bit_length n = (if n = 0 then 0 else Suc (bit_length (n div 2)))"

declare bit_length.simps [simp del]

text \<open>
  Rounding of a non-negative integer to 53 significant bits, ties to even: the
  rounding of IEEE 754 binary64, which Python's \<open>float\<close> uses. The same function rounds
  \<open>m * 2 ^ k\<close> for any fixed \<open>k\<close> (away from overflow and underflow), because scaling
  by a power of two only moves the exponent.
\<close>

definition round_half_even_53 :: "nat \<Rightarrow> nat" where
  "round_half_even_53 m =
     (let b = bit_length m in
      if b \<le> 53 then m
      else let s = b - 53; q = m div 2 ^ s; r = m mod 2 ^ s; h = 2 ^ (s - 1)
           in (if h < r \<or> (r = h \<and> odd q) then q + 1 else q) * 2 ^ s)"

text \<open>
  The conversion of the Python integer \<open>n_data\<close> to a double that \<open>0.75 * n_data\<close>
  performs first. The double holds an integer value, which is what is returned; a
  value that rounds to \<open>2 ^ 1024\<close> or more has no double and raises.
\<close>

definition float_of_int :: "int \<Rightarrow> py_error + int" where
  "float_of_int n =
     (let a = round_half_even_53 (nat \<bar>n\<bar>)
      in if 2 ^ 1024 \<le> a then Inl OverflowError else Inr (sgn n * int a))"

text \<open>
  The double product \<open>0.75 * f\<close> for a double \<open>f\<close> that holds an integer: \<open>0.75\<close> is
  exactly \<open>3 / 4\<close>, so the exact product is \<open>3 * f / 4\<close>, rounded to 53 bits.
\<close>

definition float_mul_075 :: "int \<Rightarrow> rat" where
  "float_mul_075 f = Fract (sgn f * int (round_half_even_53 (nat \<bar>3 * f\<bar>))) 4"

text \<open>\<open>int(np.ceil(0.75 * n_data))\<close>: the ceiling of a double and its conversion to \<open>int\<close> are exact.\<close>

definition ceil_075 :: "int \<Rightarrow> py_error + int" where
  "ceil_075 n_data =
     (case float_of_int n_data of
        Inl e \<Rightarrow> Inl e
      | Inr f \<Rightarrow> Inr \<lceil>float_mul_075 f\<rceil>)"

text \<open>
  \<open>circuit_evals_kernel(n_data, split)\<close>. The arithmetic after \<open>M\<close> is on Python's
  unbounded integers. The argument \<open>split\<close> may be any value.
\<close>

definition circuit_evals_kernel :: "int \<Rightarrow> 'a \<Rightarrow> py_error + int" where
  "circuit_evals_kernel n_data split =
     (case ceil_075 n_data of
        Inl e \<Rightarrow> Inl e
      | Inr M \<Rightarrow>
          let Mpred = n_data - M;
              n_training = M * M;
              n_prediction = M * Mpred
          in Inr (n_training + n_prediction))"

section \<open>Floating-point values\<close>

text \<open>
  A value of a float tensor or a Python \<open>float\<close>: a finite number, an infinity or NaN.
  The two zeros are not told apart. The tensors of the script hold doubles; a tensor of
  single precision has the same kinds of values and a coarser rounding.
\<close>

datatype f64 = Num real | PInf | NInf | NaN

text \<open>
  The arithmetic of IEEE 754. A finite result is the exact result rounded; the rounding
  is the parameter \<open>rnd\<close>, which gives the floating-point value nearest to a real
  number, or an infinity when that overflows. What the special values do is fixed: NaN stays NaN,
  \<open>inf * 0\<close> and \<open>inf - inf\<close> are NaN.
\<close>

fun f_mul :: "(real \<Rightarrow> f64) \<Rightarrow> f64 \<Rightarrow> f64 \<Rightarrow> f64" where
  "f_mul rnd NaN b = NaN"
| "f_mul rnd a NaN = NaN"
| "f_mul rnd (Num x) (Num y) = rnd (x * y)"
| "f_mul rnd (Num x) PInf = (if x = 0 then NaN else if 0 < x then PInf else NInf)"
| "f_mul rnd (Num x) NInf = (if x = 0 then NaN else if 0 < x then NInf else PInf)"
| "f_mul rnd PInf (Num y) = (if y = 0 then NaN else if 0 < y then PInf else NInf)"
| "f_mul rnd NInf (Num y) = (if y = 0 then NaN else if 0 < y then NInf else PInf)"
| "f_mul rnd PInf PInf = PInf"
| "f_mul rnd PInf NInf = NInf"
| "f_mul rnd NInf PInf = NInf"
| "f_mul rnd NInf NInf = PInf"

fun f_add :: "(real \<Rightarrow> f64) \<Rightarrow> f64 \<Rightarrow> f64 \<Rightarrow> f64" where
  "f_add rnd NaN b = NaN"
| "f_add rnd a NaN = NaN"
| "f_add rnd (Num x) (Num y) = rnd (x + y)"
| "f_add rnd PInf NInf = NaN"
| "f_add rnd NInf PInf = NaN"
| "f_add rnd PInf b = PInf"
| "f_add rnd NInf b = NInf"
| "f_add rnd (Num x) b = b"

fun f_neg :: "f64 \<Rightarrow> f64" where
  "f_neg (Num x) = Num (- x)"
| "f_neg PInf = NInf"
| "f_neg NInf = PInf"
| "f_neg NaN = NaN"

definition f_sub :: "(real \<Rightarrow> f64) \<Rightarrow> f64 \<Rightarrow> f64 \<Rightarrow> f64" where
  "f_sub rnd a b = f_add rnd a (f_neg b)"

text \<open>The comparisons \<open>a <= b\<close>, \<open>v > 0\<close> and \<open>v >= 0\<close>: false when NaN takes part.\<close>

fun f_le :: "f64 \<Rightarrow> f64 \<Rightarrow> bool" where
  "f_le NaN b = False"
| "f_le a NaN = False"
| "f_le NInf b = True"
| "f_le a PInf = True"
| "f_le (Num x) (Num y) = (x \<le> y)"
| "f_le a b = False"

fun positive :: "f64 \<Rightarrow> bool" where
  "positive (Num x) = (0 < x)"
| "positive PInf = True"
| "positive v = False"

definition nonneg :: "f64 \<Rightarrow> bool" where
  "nonneg v = f_le (Num 0) v"

text \<open>The maximum of two values as \<open>torch.maximum\<close> takes it: NaN if one of them is NaN.\<close>

definition f_max :: "f64 \<Rightarrow> f64 \<Rightarrow> f64" where
  "f_max a b = (if a = NaN \<or> b = NaN then NaN else if f_le a b then b else a)"

section \<open>Kernel-based training tutorial: hinge loss and prediction\<close>

subsection \<open>Tensors\<close>

text \<open>
  A one-dimensional float tensor is the list of its entries; \<open>preds\<close> and \<open>y_batch_torch\<close>,
  the arguments of \<open>hinge_loss\<close> in the script, are such tensors.
\<close>

type_synonym tensor = "f64 list"

text \<open>\<open>torch.ones_like(t)\<close>: a tensor of the shape of \<open>t\<close> filled with ones.\<close>

definition ones_like :: "tensor \<Rightarrow> tensor" where
  "ones_like t = replicate (length t) (Num 1)"

text \<open>
  An elementwise operation of \<open>torch\<close> on two one-dimensional tensors: entry by entry
  when the lengths agree, a tensor of one entry is broadcast against the other, and any
  other pair of lengths is refused.
\<close>

definition elementwise :: "(f64 \<Rightarrow> f64 \<Rightarrow> f64) \<Rightarrow> tensor \<Rightarrow> tensor \<Rightarrow> py_error + tensor" where
  "elementwise f a b =
     (if length a = length b then Inr (map2 f a b)
      else if length a = 1 then Inr (map (\<lambda>y. f (hd a) y) b)
      else if length b = 1 then Inr (map (\<lambda>x. f x (hd b)) a)
      else Inl RuntimeError)"

text \<open>
  \<open>torch.nn.functional.relu\<close>, entry by entry: a negative entry becomes zero, NaN stays
  NaN, any other entry is kept.
\<close>

fun relu_entry :: "f64 \<Rightarrow> f64" where
  "relu_entry (Num x) = (if x < 0 then Num 0 else Num x)"
| "relu_entry NInf = Num 0"
| "relu_entry PInf = PInf"
| "relu_entry NaN = NaN"

definition relu :: "tensor \<Rightarrow> tensor" where
  "relu t = map relu_entry t"

subsection \<open>The hinge loss\<close>

text \<open>\<open>hinge_loss(predictions, targets)\<close>, statement by statement.\<close>

definition hinge_loss :: "(real \<Rightarrow> f64) \<Rightarrow> tensor \<Rightarrow> tensor \<Rightarrow> py_error + tensor" where
  "hinge_loss rnd predictions targets =
     (let all_ones = ones_like targets
      in case elementwise (f_mul rnd) predictions targets of
           Inl e \<Rightarrow> Inl e
         | Inr product \<Rightarrow>
             (case elementwise (f_sub rnd) all_ones product of
                Inl e \<Rightarrow> Inl e
              | Inr hinge_loss \<Rightarrow> Inr (relu hinge_loss)))"

subsection \<open>The variational model\<close>

text \<open>\<open>n_qubits = len(X_train[0])\<close>: the data set is made with three features.\<close>

definition n_qubits :: nat where
  "n_qubits = 3"

text \<open>
  The operations that \<open>AngleEmbedding(features, wires=range(n))\<close> queues with its
  default rotation: \<open>RX(features[i])\<close> on wire \<open>i\<close> for each feature, in order. More
  features than wires are refused with \<open>ValueError\<close>.
\<close>

datatype operation = RX f64 nat

fun embedding_ops :: "nat \<Rightarrow> f64 list \<Rightarrow> operation list" where
  "embedding_ops i [] = []"
| "embedding_ops i (f # features) = RX f i # embedding_ops (Suc i) features"

definition AngleEmbedding :: "f64 list \<Rightarrow> nat \<Rightarrow> py_error + operation list" where
  "AngleEmbedding features n =
     (if n < length features then Inl ValueError else Inr (embedding_ops 0 features))"

text \<open>
  The QNode \<open>quantum_model(x, params)\<close>: the embedding of \<open>x\<close>, then what the library does
  with the queue, which is the parameter \<open>run_circuit\<close>: it adds
  \<open>StronglyEntanglingLayers(params, ...)\<close>, runs the device and returns the expectation
  of \<open>PauliZ(0)\<close>, or raises.
\<close>

definition quantum_model ::
  "(operation list \<Rightarrow> 'p \<Rightarrow> py_error + f64) \<Rightarrow> f64 list \<Rightarrow> 'p \<Rightarrow> py_error + f64" where
  "quantum_model run_circuit x params =
     (case AngleEmbedding x n_qubits of
        Inl e \<Rightarrow> Inl e
      | Inr ops \<Rightarrow> run_circuit ops params)"

text \<open>\<open>quantum_model_plus_bias(x, params, bias)\<close>.\<close>

definition quantum_model_plus_bias ::
  "(real \<Rightarrow> f64) \<Rightarrow> (operation list \<Rightarrow> 'p \<Rightarrow> py_error + f64) \<Rightarrow> f64 list \<Rightarrow> 'p \<Rightarrow> f64
     \<Rightarrow> py_error + f64" where
  "quantum_model_plus_bias rnd run_circuit x params bias =
     (case quantum_model run_circuit x params of
        Inl e \<Rightarrow> Inl e
      | Inr v \<Rightarrow> Inr (f_add rnd v bias))"

text \<open>
  The body of the loop of \<open>quantum_model_predict\<close> up to the raw output:
  \<open>x_torch = torch.tensor(x)\<close>, the call of \<open>quantum_model_plus_bias\<close> and
  \<open>pred_torch.detach().numpy().item()\<close>. What \<open>torch.tensor\<close> makes of an element of
  \<open>X_pred\<close>, or that it refuses it, is the parameter \<open>to_tensor\<close>; taking the item
  out of the result keeps its value.
\<close>

definition raw_output ::
  "('x \<Rightarrow> py_error + f64 list) \<Rightarrow> (real \<Rightarrow> f64) \<Rightarrow> (operation list \<Rightarrow> 'p \<Rightarrow> py_error + f64)
     \<Rightarrow> 'x \<Rightarrow> 'p \<Rightarrow> f64 \<Rightarrow> py_error + f64" where
  "raw_output to_tensor rnd run_circuit x trained_params trained_bias =
     (case to_tensor x of
        Inl e \<Rightarrow> Inl e
      | Inr x_torch \<Rightarrow> quantum_model_plus_bias rnd run_circuit x_torch trained_params trained_bias)"

text \<open>
  \<open>quantum_model_predict(X_pred, trained_params, trained_bias)\<close>: the \<open>for\<close> loop over
  \<open>X_pred\<close>, with the list \<open>p\<close> that it appends to as an accumulator. An exception in
  the body ends the loop.
\<close>

fun predict_loop ::
  "('x \<Rightarrow> py_error + f64 list) \<Rightarrow> (real \<Rightarrow> f64) \<Rightarrow> (operation list \<Rightarrow> 'p \<Rightarrow> py_error + f64)
     \<Rightarrow> 'x list \<Rightarrow> 'p \<Rightarrow> f64 \<Rightarrow> int list \<Rightarrow> py_error + int list" where
  "predict_loop to_tensor rnd run_circuit [] trained_params trained_bias p = Inr p"
| "predict_loop to_tensor rnd run_circuit (x # xs) trained_params trained_bias p =
     (case raw_output to_tensor rnd run_circuit x trained_params trained_bias of
        Inl e \<Rightarrow> Inl e
      | Inr pred \<Rightarrow>
          (let pred = (if positive pred then 1 else - 1)
           in predict_loop to_tensor rnd run_circuit xs trained_params trained_bias (p @ [pred])))"

definition quantum_model_predict ::
  "('x \<Rightarrow> py_error + f64 list) \<Rightarrow> (real \<Rightarrow> f64) \<Rightarrow> (operation list \<Rightarrow> 'p \<Rightarrow> py_error + f64)
     \<Rightarrow> 'x list \<Rightarrow> 'p \<Rightarrow> f64 \<Rightarrow> py_error + int list" where
  "quantum_model_predict to_tensor rnd run_circuit X_pred trained_params trained_bias =
     predict_loop to_tensor rnd run_circuit X_pred trained_params trained_bias []"

section \<open>Gaussian boson sampling tutorial: the script from the assignment of \<open>probs\<close>\<close>

subsection \<open>Arrays\<close>

text \<open>
  A real array as NumPy holds it: a shape and the entries in row-major order.
\<close>

record ndarray =
  shape :: "nat list"
  flat :: "real list"

text \<open>\<open>a.reshape(shp)\<close> of a one-dimensional array: the sizes must agree.\<close>

definition reshape :: "real list \<Rightarrow> nat list \<Rightarrow> py_error + ndarray" where
  "reshape a shp =
     (if prod_list shp = length a then Inr \<lparr>shape = shp, flat = a\<rparr> else Inl ValueError)"

text \<open>
  Indexing with a tuple of integers, one for each of the leading axes. A negative index
  counts from the end of its axis; an index out of range, or more indices than axes,
  is an \<open>IndexError\<close>. The result of \<open>ravel\<close> is the position of the selected block,
  counted in blocks, and the shape of the block: the axes that are not indexed.
\<close>

fun ravel :: "nat list \<Rightarrow> int list \<Rightarrow> nat \<Rightarrow> py_error + nat \<times> nat list" where
  "ravel ds [] acc = Inr (acc, ds)"
| "ravel [] (i # idx) acc = Inl IndexError"
| "ravel (d # ds) (i # idx) acc =
     (let j = (if i < 0 then i + int d else i)
      in if 0 \<le> j \<and> j < int d then ravel ds idx (acc * d + nat j) else Inl IndexError)"

text \<open>
  \<open>a[idx]\<close>: a read of the selected block, as an array of the remaining axes. With one
  index for every axis the block is a single entry, an array of shape \<open>()\<close>.
\<close>

definition getitem :: "ndarray \<Rightarrow> int list \<Rightarrow> py_error + ndarray" where
  "getitem a idx =
     (case ravel (shape a) idx 0 of
        Inl e \<Rightarrow> Inl e
      | Inr (k, rest) \<Rightarrow>
          Inr \<lparr>shape = rest,
               flat = take (prod_list rest) (drop (k * prod_list rest) (flat a))\<rparr>)"

text \<open>Complex matrices as lists of rows.\<close>

type_synonym cmatrix = "complex list list"

text \<open>\<open>np.dot(A, B)\<close>, \<open>A.T\<close> and the product of a matrix with a real scalar.\<close>

definition dot :: "cmatrix \<Rightarrow> cmatrix \<Rightarrow> cmatrix" where
  "dot A B = map (\<lambda>row. map (\<lambda>col. sum_list (map2 (\<lambda>x y. x * y) row col)) (transpose B)) A"

definition scale :: "cmatrix \<Rightarrow> real \<Rightarrow> cmatrix" where
  "scale A c = map (map (\<lambda>z. z * complex_of_real c)) A"

text \<open>
  \<open>A[:, cols]\<close> and \<open>A[rows]\<close> with lists of indices: a new matrix of the selected
  columns or rows, with repetitions as listed.
\<close>

definition take_cols :: "cmatrix \<Rightarrow> nat list \<Rightarrow> py_error + cmatrix" where
  "take_cols A cols =
     (if \<forall>row \<in> set A. \<forall>c \<in> set cols. c < length row
      then Inr (map (\<lambda>row. map (\<lambda>c. row ! c) cols) A) else Inl IndexError)"

definition take_rows :: "cmatrix \<Rightarrow> nat list \<Rightarrow> py_error + cmatrix" where
  "take_rows A rows =
     (if \<forall>r \<in> set rows. r < length A then Inr (map (\<lambda>r. A ! r) rows) else Inl IndexError)"

text \<open>\<open>A[:, cols][rows]\<close>.\<close>

definition submatrix :: "cmatrix \<Rightarrow> nat list \<Rightarrow> nat list \<Rightarrow> py_error + cmatrix" where
  "submatrix A cols rows =
     (case take_cols A cols of Inl e \<Rightarrow> Inl e | Inr C \<Rightarrow> take_rows C rows)"

subsection \<open>The state of the script\<close>

text \<open>What a \<open>print\<close> call writes, by the kind of value printed.\<close>

datatype printed =
    PShape "nat list"
  | PFock "int list" ndarray
  | PArray ndarray
  | PMatrix cmatrix
  | PReal real

text \<open>
  The module-level variables that the statements from line 245 on read or assign, and
  the console. A variable that is not assigned yet is \<open>None\<close>.
\<close>

record gbs_state =
  U :: cmatrix
  probs :: "ndarray option"
  measure_states :: "(int list list) option"
  B :: "cmatrix option"
  stdout :: "printed list"

definition n_wires :: nat where
  "n_wires = 4"

definition cutoff :: nat where
  "cutoff = 10"

text \<open>A statement maps the state to the next one, or raises.\<close>

type_synonym stmt = "gbs_state \<Rightarrow> py_error + gbs_state"

definition print :: "printed \<Rightarrow> stmt" where
  "print v s = Inr (s\<lparr>stdout := stdout s @ [v]\<rparr>)"

text \<open>Reading \<open>probs[i]\<close>: the variable must be bound and the index in range.\<close>

definition read_probs :: "gbs_state \<Rightarrow> int list \<Rightarrow> py_error + ndarray" where
  "read_probs s i = (case probs s of None \<Rightarrow> Inl NameError | Some a \<Rightarrow> getitem a i)"

definition print_probs :: "int list \<Rightarrow> stmt" where
  "print_probs i s = (case read_probs s i of Inl e \<Rightarrow> Inl e | Inr v \<Rightarrow> print (PArray v) s)"

subsection \<open>The statements, in source order\<close>

text \<open>
  \<open>probs = gbs_circuit().reshape([cutoff] * n_wires)\<close>. The probabilities that the
  simulator returns for the circuit are the parameter \<open>circuit_output\<close>.
\<close>

definition assign_probs :: "real list \<Rightarrow> stmt" where
  "assign_probs circuit_output s =
     (case reshape circuit_output (replicate n_wires cutoff) of
        Inl e \<Rightarrow> Inl e
      | Inr a \<Rightarrow> Inr (s\<lparr>probs := Some a\<rparr>))"

text \<open>\<open>print(probs.shape)\<close>.\<close>

definition print_shape :: stmt where
  "print_shape s =
     (case probs s of None \<Rightarrow> Inl NameError | Some a \<Rightarrow> print (PShape (shape a)) s)"

text \<open>\<open>measure_states = [(0,0,0,0), (1,1,0,0), (0,1,0,1), (1,1,1,1), (2,0,0,0)]\<close>.\<close>

definition assign_measure_states :: stmt where
  "assign_measure_states s =
     Inr (s\<lparr>measure_states := Some [[0,0,0,0], [1,1,0,0], [0,1,0,1], [1,1,1,1], [2,0,0,0]]\<rparr>)"

text \<open>The loop \<open>for i in measure_states: print(f"|...>: {probs[i]}")\<close>.\<close>

fun print_loop :: "int list list \<Rightarrow> stmt" where
  "print_loop [] s = Inr s"
| "print_loop (i # rest) s =
     (case read_probs s i of
        Inl e \<Rightarrow> Inl e
      | Inr v \<Rightarrow>
          (case print (PFock i v) s of Inl e \<Rightarrow> Inl e | Inr s' \<Rightarrow> print_loop rest s'))"

definition print_measure_states :: stmt where
  "print_measure_states s =
     (case measure_states s of None \<Rightarrow> Inl NameError | Some ms \<Rightarrow> print_loop ms s)"

text \<open>\<open>B = (np.dot(U, U.T) * np.tanh(1))\<close>, also the right-hand side of the later ones.\<close>

definition B_full :: "gbs_state \<Rightarrow> cmatrix" where
  "B_full s = scale (dot (U s) (transpose (U s))) (tanh 1)"

definition assign_B :: stmt where
  "assign_B s = Inr (s\<lparr>B := Some (B_full s)\<rparr>)"

text \<open>\<open>print(B[:, [0, 1]][[0, 1]])\<close>.\<close>

definition print_B_sub :: stmt where
  "print_B_sub s =
     (case B s of
        None \<Rightarrow> Inl NameError
      | Some b \<Rightarrow>
          (case submatrix b [0, 1] [0, 1] of Inl e \<Rightarrow> Inl e | Inr m \<Rightarrow> print (PMatrix m) s))"

text \<open>\<open>print(1 / np.cosh(1) ** 4)\<close>.\<close>

definition print_vacuum :: stmt where
  "print_vacuum s = print (PReal (1 / cosh 1 ^ 4)) s"

text \<open>\<open>B = (np.dot(U, U.T) * np.tanh(1))[:, idx][idx]\<close>.\<close>

definition assign_B_sub :: "nat list \<Rightarrow> stmt" where
  "assign_B_sub idx s =
     (case submatrix (B_full s) idx idx of
        Inl e \<Rightarrow> Inl e
      | Inr m \<Rightarrow> Inr (s\<lparr>B := Some m\<rparr>))"

text \<open>
  \<open>print(np.abs(haf(B)) ** 2 / (d * np.cosh(1) ** 4))\<close>, where \<open>d\<close> is the product of
  the factorials (\<open>1\<close> where the source leaves it out). The hafnian is computed by a
  library; it is the parameter \<open>haf\<close>.
\<close>

definition print_formula :: "(cmatrix \<Rightarrow> complex) \<Rightarrow> real \<Rightarrow> stmt" where
  "print_formula haf d s =
     (case B s of
        None \<Rightarrow> Inl NameError
      | Some b \<Rightarrow> print (PReal ((cmod (haf b)) ^ 2 / (d * cosh 1 ^ 4))) s)"

text \<open>The script from line 245 to its end.\<close>

definition script :: "real list \<Rightarrow> (cmatrix \<Rightarrow> complex) \<Rightarrow> stmt list" where
  "script circuit_output haf =
     [assign_probs circuit_output,
      print_shape,
      assign_measure_states,
      print_measure_states,
      assign_B,
      print_B_sub,
      print_vacuum,
      print_probs [0, 0, 0, 0],
      assign_B_sub [0, 1],
      print_formula haf 1,
      print_probs [1, 1, 0, 0],
      assign_B_sub [1, 3],
      print_formula haf 1,
      print_probs [0, 1, 0, 1],
      assign_B,
      print_formula haf 1,
      print_probs [1, 1, 1, 1],
      assign_B_sub [0, 0],
      print_formula haf 2,
      print_probs [2, 0, 0, 0]]"

text \<open>Running statements in sequence; the first exception ends the run.\<close>

fun run :: "stmt list \<Rightarrow> stmt" where
  "run [] s = Inr s"
| "run (st # sts) s = (case st s of Inl e \<Rightarrow> Inl e | Inr s' \<Rightarrow> run sts s')"

text \<open>The state when line 245 is reached: \<open>U\<close> is bound, nothing is printed by these lines yet.\<close>

definition initial :: "cmatrix \<Rightarrow> gbs_state" where
  "initial u = \<lparr>U = u, probs = None, measure_states = None, B = None, stdout = []\<rparr>"

subsection \<open>What holds after the first \<open>k\<close> statements\<close>

text \<open>
  The facts about the variables that the later statements rely on, by position in the
  script: \<open>U\<close> is never assigned, \<open>probs\<close> holds the array \<open>a\<close> from the first statement
  on, \<open>measure_states\<close> holds its five tuples from the third on, and \<open>B\<close> is bound from
  the fifth on, to the full matrix when \<open>print_B_sub\<close> reads it.
\<close>

definition after :: "cmatrix \<Rightarrow> ndarray \<Rightarrow> nat \<Rightarrow> gbs_state \<Rightarrow> bool" where
  "after u a k s \<longleftrightarrow>
     U s = u
     \<and> (1 \<le> k \<longrightarrow> probs s = Some a)
     \<and> (3 \<le> k \<longrightarrow> measure_states s = Some [[0,0,0,0], [1,1,0,0], [0,1,0,1], [1,1,1,1], [2,0,0,0]])
     \<and> (5 \<le> k \<longrightarrow> B s \<noteq> None)
     \<and> (k = 5 \<longrightarrow> B s = Some (B_full s))"

section \<open>The order of the steps of the two scripts\<close>

text \<open>
  What the statements of a script do with a quantum circuit, as events in the order of
  execution. The scripts use three circuits, each a QNode on a device of its own.
\<close>

datatype circuit = Gbs_circuit | Kernel_circuit | Quantum_model

text \<open>
  What a printed or plotted value comes from: an input of the circuit (the matrix \<open>U\<close>),
  a closed formula (the hafnian expressions), results of a circuit, or the evaluation
  counts of the scaling analysis.
\<close>

datatype origin = Input | Formula | Result circuit | Counts

text \<open>
  \<open>Configure c\<close>: \<open>qml.device\<close> makes the device of circuit \<open>c\<close>;
  \<open>Define c\<close>: the decorated function definition of \<open>c\<close>;
  \<open>Execute c\<close>: a statement runs \<open>c\<close> on its device;
  \<open>PostProcess c\<close>: a numerical routine works on results of \<open>c\<close>;
  \<open>Output o\<close>: \<open>print\<close> or a plot shows values of origin \<open>o\<close>;
  \<open>Compute\<close>: numerical work that does not use results of a circuit.
  Imports, data preparation and plain function definitions leave no event.
\<close>

datatype event =
    Configure circuit
  | Define circuit
  | Execute circuit
  | PostProcess circuit
  | Output origin
  | Compute

subsection \<open>The boson sampling script\<close>

text \<open>
  The comparison of one Fock state: \<open>B = ...\<close>, \<open>print(np.abs(haf(B)) ** 2 / ...)\<close>,
  \<open>print(probs[...])\<close>.
\<close>

definition compare_state :: "event list" where
  "compare_state = [Compute, Output Formula, Output (Result Gbs_circuit)]"

text \<open>The loop \<open>for i in measure_states: print(... probs[i] ...)\<close>, one print for each state.\<close>

fun print_states :: "nat \<Rightarrow> event list" where
  "print_states 0 = []"
| "print_states (Suc n) = Output (Result Gbs_circuit) # print_states n"

definition gbs_script :: "event list" where
  "gbs_script =
     [Output Input,                      \<comment> \<open>\<open>U = unitary_group.rvs(4); print(U)\<close>\<close>
      Configure Gbs_circuit,             \<comment> \<open>\<open>dev = qml.device(...)\<close>\<close>
      Define Gbs_circuit,                \<comment> \<open>\<open>@qml.qnode(dev) def gbs_circuit(): ...\<close>\<close>
      Execute Gbs_circuit,               \<comment> \<open>\<open>probs = gbs_circuit()\<close> ...\<close>
      PostProcess Gbs_circuit,           \<comment> \<open>... \<open>.reshape([cutoff] * n_wires)\<close>\<close>
      Output (Result Gbs_circuit)]       \<comment> \<open>\<open>print(probs.shape)\<close>\<close>
     @ print_states 5                    \<comment> \<open>the loop over the five \<open>measure_states\<close>\<close>
     @ [Compute,                         \<comment> \<open>\<open>B = (np.dot(U, U.T) * np.tanh(1))\<close>\<close>
        Output Formula,                  \<comment> \<open>\<open>print(B[:, [0, 1]][[0, 1]])\<close>\<close>
        Output Formula,                  \<comment> \<open>\<open>print(1 / np.cosh(1) ** 4)\<close>\<close>
        Output (Result Gbs_circuit)]     \<comment> \<open>\<open>print(probs[0, 0, 0, 0])\<close>\<close>
     @ compare_state                     \<comment> \<open>\<open>|1,1,0,0>\<close>\<close>
     @ compare_state                     \<comment> \<open>\<open>|0,1,0,1>\<close>\<close>
     @ compare_state                     \<comment> \<open>\<open>|1,1,1,1>\<close>\<close>
     @ compare_state"                    \<comment> \<open>\<open>|2,0,0,0>\<close>\<close>

subsection \<open>The kernel-based training script\<close>

text \<open>
  One call of \<open>closure\<close> in step \<open>i\<close> of \<open>quantum_model_train\<close>: the model is run on
  the batch, the hinge loss and its mean are taken, the loss is printed in every tenth
  step, and \<open>loss.backward()\<close> runs the circuit again for the parameter-shift gradient.
\<close>

definition closure :: "nat \<Rightarrow> event list" where
  "closure i =
     [Execute Quantum_model, PostProcess Quantum_model]
     @ (if i mod 10 = 0 then [Output (Result Quantum_model)] else [])
     @ [Execute Quantum_model]"

text \<open>
  The loop \<open>for i in range(steps): ... opt.step(closure)\<close>, from step \<open>i\<close> with
  \<open>remaining\<close> steps to go.
\<close>

fun train_loop :: "nat \<Rightarrow> nat \<Rightarrow> event list" where
  "train_loop i 0 = []"
| "train_loop i (Suc remaining) = closure i @ train_loop (Suc i) remaining"

definition quantum_model_train :: "nat \<Rightarrow> event list" where
  "quantum_model_train steps = train_loop 0 steps"

text \<open>The loop of \<open>quantum_model_predict\<close>: one execution for each input.\<close>

definition predict_events :: "nat \<Rightarrow> event list" where
  "predict_events n = replicate n (Execute Quantum_model)"

text \<open>The part of the script on the kernel, up to the count of its circuit evaluations.\<close>

definition kernel_part :: "event list" where
  "kernel_part =
     [Configure Kernel_circuit,          \<comment> \<open>\<open>dev_kernel = qml.device(...)\<close>\<close>
      Define Kernel_circuit,             \<comment> \<open>\<open>@qml.qnode(dev_kernel) def kernel(x1, x2): ...\<close>\<close>
      Execute Kernel_circuit,            \<comment> \<open>\<open>kernel(X_train[0], X_train[0])\<close>\<close>
      Execute Kernel_circuit,            \<comment> \<open>\<open>svm = SVC(kernel=kernel_matrix).fit(X_train, y_train)\<close>:\<close>
      PostProcess Kernel_circuit,        \<comment> \<open>the kernel matrix, then the fit\<close>
      Execute Kernel_circuit,            \<comment> \<open>\<open>predictions = svm.predict(X_test)\<close>:\<close>
      PostProcess Kernel_circuit,        \<comment> \<open>the kernel matrix, then the prediction\<close>
      PostProcess Kernel_circuit,        \<comment> \<open>\<open>accuracy_score(predictions, y_test)\<close>\<close>
      Compute]"                          \<comment> \<open>\<open>circuit_evals_kernel(n_data=len(X), split=...)\<close>\<close>

text \<open>
  The part on the variational circuit, for \<open>n_test\<close> test inputs, with
  \<open>steps = 80\<close>.
\<close>

definition variational_part :: "nat \<Rightarrow> event list" where
  "variational_part n_test =
     [Configure Quantum_model,           \<comment> \<open>\<open>dev_var = qml.device(...)\<close>\<close>
      Define Quantum_model]              \<comment> \<open>\<open>@qml.qnode(dev_var, ...) def quantum_model(x, params): ...\<close>\<close>
     @ quantum_model_train 80            \<comment> \<open>\<open>quantum_model_train(n_layers, steps, batch_size)\<close>\<close>
     @ predict_events n_test             \<comment> \<open>\<open>pred_test = quantum_model_predict(X_test, ...)\<close>\<close>
     @ [PostProcess Quantum_model,       \<comment> \<open>\<open>print(..., accuracy_score(pred_test, y_test))\<close>:\<close>
        Output (Result Quantum_model),   \<comment> \<open>the score, then the print\<close>
        Output (Result Quantum_model)]"  \<comment> \<open>\<open>plt.plot(loss_history); plt.ylim((0, 1)); plt.show()\<close>\<close>

text \<open>
  The scaling analysis at the end: the two counts for the data set, the four counts for
  each of the twenty sizes, and the plot.
\<close>

definition scaling_part :: "event list" where
  "scaling_part = replicate 2 Compute @ replicate (20 * 4) Compute @ [Output Counts]"

definition kernel_script :: "nat \<Rightarrow> event list" where
  "kernel_script n_test = kernel_part @ variational_part n_test @ scaling_part"

subsection \<open>The order that the specification describes\<close>

text \<open>
  The step of the specification that an event belongs to: (a) configure a device,
  (b) define a circuit, (c) execute it, (d) post-process, (e) print or plot results,
  numbered from \<open>0\<close>. Printing the input matrix and computing apart from circuit results
  belong to none.
\<close>

fun step_of :: "event \<Rightarrow> nat option" where
  "step_of (Configure c) = Some 0"
| "step_of (Define c) = Some 1"
| "step_of (Execute c) = Some 2"
| "step_of (PostProcess c) = Some 3"
| "step_of (Output Input) = None"
| "step_of (Output v) = Some 4"
| "step_of Compute = None"

fun steps_of :: "event list \<Rightarrow> nat list" where
  "steps_of [] = []"
| "steps_of (e # es) = (case step_of e of None \<Rightarrow> steps_of es | Some k \<Rightarrow> k # steps_of es)"

text \<open>A script is a single sequence of the steps (a) to (e) in this order.\<close>

definition in_step_order :: "event list \<Rightarrow> bool" where
  "in_step_order es = sorted (steps_of es)"

text \<open>
  The order for one circuit \<open>c\<close>, scanning the events with the number of steps of \<open>c\<close>
  seen so far (\<open>0\<close>: none, \<open>1\<close>: device configured, \<open>2\<close>: circuit defined, \<open>3\<close>:
  executed): the device is configured once and first, then the circuit is defined, it
  is executed only when defined, and its results are post-processed, printed or plotted
  only when it has been executed.
\<close>

fun ordered_from :: "nat \<Rightarrow> circuit \<Rightarrow> event list \<Rightarrow> bool" where
  "ordered_from q c [] = (q = 3)"
| "ordered_from q c (e # es) =
     (if e = Configure c then q = 0 \<and> ordered_from 1 c es
      else if e = Define c then q = 1 \<and> ordered_from 2 c es
      else if e = Execute c then 2 \<le> q \<and> ordered_from 3 c es
      else if e = PostProcess c \<or> e = Output (Result c) then q = 3 \<and> ordered_from 3 c es
      else ordered_from q c es)"

definition circuit_ordered :: "circuit \<Rightarrow> event list \<Rightarrow> bool" where
  "circuit_ordered c es = ordered_from 0 c es"
section \<open>Properties of the evaluation count\<close>

subsection \<open>Bit length and rounding to a double\<close>

lemma bit_length_le_iff: "bit_length n \<le> k \<longleftrightarrow> n < 2 ^ k"
proof (induction n arbitrary: k rule: bit_length.induct)
  case (1 n)
  show ?case
  proof (cases "n = 0")
    case True
    then show ?thesis by (simp add: bit_length.simps)
  next
    case False
    show ?thesis
    proof (cases k)
      case 0
      with False show ?thesis by (simp add: bit_length.simps)
    next
      case (Suc k')
      have "bit_length n \<le> Suc k' \<longleftrightarrow> bit_length (n div 2) \<le> k'"
        using False by (simp add: bit_length.simps [of n])
      also have "\<dots> \<longleftrightarrow> n div 2 < 2 ^ k'"
        using 1 False by simp
      also have "\<dots> \<longleftrightarrow> n < 2 ^ Suc k'"
        by (simp add: less_mult_imp_div_less div_less_iff_less_mult mult.commute)
      finally show ?thesis using Suc by simp
    qed
  qed
qed

lemma bit_length_upper: "n < 2 ^ bit_length n"
  using bit_length_le_iff [of n "bit_length n"] by simp

lemma bit_length_lower: "0 < n \<Longrightarrow> 2 ^ (bit_length n - 1) \<le> n"
proof -
  assume "0 < n"
  then have "bit_length n \<noteq> 0" by (simp add: bit_length.simps [of n])
  then have "\<not> bit_length n \<le> bit_length n - 1" by simp
  then show ?thesis unfolding bit_length_le_iff by simp
qed

lemma round_small: "m < 2 ^ 53 \<Longrightarrow> round_half_even_53 m = m"
  using bit_length_le_iff [of m 53] by (simp add: round_half_even_53_def)


lemma round_lower:
  assumes "2 ^ 1024 \<le> m"
  shows "2 ^ 1024 \<le> round_half_even_53 m"
proof -
  define b where "b = bit_length m"
  define s where "s = b - 53"
  have "\<not> m < 2 ^ 1024" using assms by simp
  then have b: "1025 \<le> b" unfolding b_def using bit_length_le_iff [of m 1024] by simp
  have "0 < m" using assms by (simp add: less_le_trans [of 0 "2 ^ 1024"])
  then have lo: "2 ^ (b - 1) \<le> m" unfolding b_def by (rule bit_length_lower)
  have split: "(2::nat) ^ (b - 1) = 2 ^ 52 * 2 ^ s"
    using b unfolding s_def by (simp only: power_add [symmetric]) simp
  have q: "2 ^ 52 \<le> m div 2 ^ s"
    using lo unfolding split by (simp add: less_eq_div_iff_mult_less_eq)
  have "(2::nat) ^ 1024 \<le> 2 ^ (b - 1)" using b by (intro power_increasing) simp_all
  also have "\<dots> \<le> (m div 2 ^ s) * 2 ^ s" unfolding split using q by simp
  finally have base: "2 ^ 1024 \<le> (m div 2 ^ s) * 2 ^ s" .
  then have up: "2 ^ 1024 \<le> (m div 2 ^ s + 1) * 2 ^ s"
    by (simp add: add_mult_distrib trans_le_add1)
  have "\<not> b \<le> 53" using b by simp
  then show ?thesis
    using base up unfolding round_half_even_53_def b_def [symmetric] Let_def s_def [symmetric]
    by (simp del: power_numeral)
qed


lemma round_upper:
  assumes "m < 2 ^ 1024 - 2 ^ 970"
  shows "round_half_even_53 m < 2 ^ 1024"
proof (cases "bit_length m \<le> 53")
  case True
  have "m < 2 ^ 1024" using assms by simp
  with True show ?thesis by (simp add: round_half_even_53_def)
next
  case False
  define s where "s = bit_length m - 53"
  define q where "q = m div 2 ^ s"
  define r where "r = m mod 2 ^ s"
  define q' where "q' = (if 2 ^ (s - 1) < r \<or> (r = 2 ^ (s - 1) \<and> odd q) then q + 1 else q)"
  have res: "round_half_even_53 m = q' * 2 ^ s"
    using False unfolding round_half_even_53_def Let_def q'_def q_def r_def s_def by simp
  have "m < 2 ^ 1024" using assms by simp
  then have "bit_length m \<le> 1024" by (simp add: bit_length_le_iff)
  then have s: "s \<le> 971" "0 < s" using False unfolding s_def by simp_all
  have "m < 2 ^ bit_length m" by (rule bit_length_upper)
  also have "bit_length m = 53 + s" using False unfolding s_def by simp
  finally have "m < 2 ^ 53 * 2 ^ s" by (simp only: power_add)
  then have q: "q < 2 ^ 53"
    unfolding q_def by (simp add: less_mult_imp_div_less)
  have m: "m = q * 2 ^ s + r" unfolding q_def r_def by (rule div_mult_mod_eq [symmetric])
  show ?thesis
  proof (cases "s = 971")
    case True
    have "q' < 2 ^ 53"
    proof (cases "q' = q")
      case True
      with q show ?thesis by simp
    next
      case ne: False
      then have q'eq: "q' = q + 1" and "2 ^ (s - 1) \<le> r"
        unfolding q'_def by (auto split: if_splits)
      then have "2 ^ 970 \<le> r" using True by simp
      then have "q * 2 ^ 971 + 2 ^ 970 \<le> m" using m True by simp
      then have "q * 2 ^ 971 + 2 ^ 970 < 2 ^ 1024 - 2 ^ 970" using assms by linarith
      then have "q * 2 ^ 971 + 2 ^ 971 < (2::nat) ^ 1024" by simp
      then have "(q + 1) * 2 ^ 971 < (2::nat) ^ 53 * 2 ^ 971" by (simp add: add_mult_distrib)
      then have "q + 1 < 2 ^ 53" by (simp only: mult_less_cancel2)
      with q'eq show ?thesis by simp
    qed
    then have "q' * 2 ^ 971 < (2::nat) ^ 53 * 2 ^ 971" by (simp only: mult_less_cancel2) simp
    then show ?thesis unfolding res True by simp
  next
    case False
    with s have s': "s \<le> 970" by simp
    have "q' \<le> q + 1" unfolding q'_def by simp
    with q have "q' \<le> 2 ^ 53" by simp
    then have "q' * 2 ^ s \<le> 2 ^ 53 * 2 ^ s" by (rule mult_le_mono1)
    also have "\<dots> = (2::nat) ^ (53 + s)" by (simp only: power_add)
    also have "\<dots> \<le> 2 ^ 1023" using s' by (intro power_increasing) simp_all
    also have "\<dots> < (2::nat) ^ 1024" by simp
    finally show ?thesis unfolding res .
  qed
qed


lemma float_of_int_ok:
  assumes "0 \<le> n" "n < 2 ^ 1024 - 2 ^ 970"
  shows "float_of_int n = Inr (int (round_half_even_53 (nat n)))"
proof -
  have "nat n < 2 ^ 1024 - 2 ^ 970" using assms by (simp add: nat_less_iff)
  then have up: "round_half_even_53 (nat n) < 2 ^ 1024" by (rule round_upper)
  show ?thesis
  proof (cases "n = 0")
    case True
    then show ?thesis by (simp add: float_of_int_def round_small)
  next
    case False
    with assms have "sgn n = 1" "\<bar>n\<bar> = n" by simp_all
    with up show ?thesis by (simp add: float_of_int_def Let_def del: power_numeral)
  qed
qed

lemma float_of_int_overflow:
  assumes "2 ^ 1024 \<le> n"
  shows "float_of_int n = Inl OverflowError"
proof -
  have "0 \<le> n" using assms by (rule order_trans [rotated]) simp
  then have "2 ^ 1024 \<le> nat \<bar>n\<bar>" using assms by (simp add: le_nat_iff)
  then have "2 ^ 1024 \<le> round_half_even_53 (nat \<bar>n\<bar>)" by (rule round_lower)
  then show ?thesis by (simp add: float_of_int_def Let_def del: power_numeral)
qed

lemma ceil_075_exact:
  assumes "0 \<le> n" "3 * n < 2 ^ 53"
  shows "ceil_075 n = Inr \<lceil>3 * rat_of_int n / 4\<rceil>"
proof -
  have n: "n < 2 ^ 53" "n < 2 ^ 1024 - 2 ^ 970" using assms by simp_all
  then have "nat n < 2 ^ 53" using assms by (simp add: nat_less_iff)
  then have f: "float_of_int n = Inr n"
    using float_of_int_ok [OF assms(1) n(2)] assms(1) by (simp add: round_small)
  have "nat \<bar>3 * n\<bar> < 2 ^ 53" using assms by (simp add: nat_less_iff)
  then have r: "round_half_even_53 (nat \<bar>3 * n\<bar>) = nat (3 * n)"
    using assms(1) by (simp add: round_small)
  have "sgn n * int (nat (3 * n)) = 3 * n" using assms(1) by (cases "n = 0") simp_all
  then have "float_mul_075 n = Fract (3 * n) 4"
    unfolding float_mul_075_def r by (simp only:)
  also have "\<dots> = 3 * rat_of_int n / 4"
    by (simp add: Fract_of_int_quotient)
  finally have "float_mul_075 n = 3 * rat_of_int n / 4" .
  then show ?thesis
    unfolding ceil_075_def f by (simp only: sum.case)
qed

text \<open>
  The bound \<open>3 * n < 2 ^ 53\<close> is the best one: at the first \<open>n\<close> with
  \<open>3 * n = 2 ^ 53 + 1\<close> the double product is a tie that rounds down, and the code's
  \<open>M\<close> is one less than the exact ceiling.
\<close>

lemma ceil_075_rounded:
  "ceil_075 3002399751580331 = Inr (2 ^ 51)"
  "\<lceil>3 * rat_of_int 3002399751580331 / 4\<rceil> = 2 ^ 51 + 1"
proof -
  have b1: "bit_length 3002399751580331 \<le> 53"
    unfolding bit_length_le_iff by simp
  have f: "float_of_int 3002399751580331 = Inr 3002399751580331"
    using b1 by (simp add: float_of_int_def round_half_even_53_def Let_def)
  have b2: "bit_length 9007199254740993 = 54"
    using bit_length_le_iff [of 9007199254740993 53] bit_length_le_iff [of 9007199254740993 54]
    by simp
  have r: "round_half_even_53 9007199254740993 = 9007199254740992"
    by (simp add: round_half_even_53_def b2 Let_def)
  have m: "float_mul_075 3002399751580331 = Fract 9007199254740992 4"
    by (simp add: float_mul_075_def r)
  have "Fract 9007199254740992 4 = (2251799813685248 :: rat)"
    by (simp add: Fract_of_int_quotient)
  then show "ceil_075 3002399751580331 = Inr (2 ^ 51)"
    by (simp add: ceil_075_def f m)
  have "3 * rat_of_int 3002399751580331 / 4 = 2251799813685248 + 1 / 4" by simp
  then have "\<lceil>3 * rat_of_int 3002399751580331 / 4\<rceil> = \<lceil>(2251799813685248 :: rat) + 1 / 4\<rceil>"
    by simp
  also have "\<dots> = 2251799813685249" by (simp add: ceiling_unique)
  finally show "\<lceil>3 * rat_of_int 3002399751580331 / 4\<rceil> = 2 ^ 51 + 1" by simp
qed

subsection \<open>The value of \<open>circuit_evals_kernel\<close>\<close>

text \<open>
  Claim C3, as the code has it. For every non-negative integer \<open>n_data\<close> that Python can
  convert to a double (\<open>n_data < 2 ^ 1024 - 2 ^ 970\<close>) and every value of \<open>split\<close>,
  \<open>circuit_evals_kernel\<close> returns \<open>M * M + M * (n_data - M)\<close>, where \<open>M\<close> is the value
  of \<open>int(np.ceil(0.75 * n_data))\<close>; the result does not depend on \<open>split\<close>; and
  \<open>M\<close> is the exact ceiling of \<open>3 * n_data / 4\<close> whenever \<open>3 * n_data < 2 ^ 53\<close>, where
  the double product is exact.
\<close>

theorem circuit_evals_kernel_formula:
  assumes "0 \<le> n_data" and "n_data < 2 ^ 1024 - 2 ^ 970"
  shows "\<exists>M. ceil_075 n_data = Inr M
           \<and> circuit_evals_kernel n_data split = Inr (M * M + M * (n_data - M))
           \<and> circuit_evals_kernel n_data split' = circuit_evals_kernel n_data split
           \<and> (3 * n_data < 2 ^ 53 \<longrightarrow> M = \<lceil>3 * rat_of_int n_data / 4\<rceil>)"
proof -
  obtain f where f: "float_of_int n_data = Inr f"
    using float_of_int_ok [OF assms] by blast
  define M where "M = \<lceil>float_mul_075 f\<rceil>"
  have c: "ceil_075 n_data = Inr M" by (simp add: ceil_075_def f M_def)
  have v: "circuit_evals_kernel n_data s = Inr (M * M + M * (n_data - M))" for s :: 'c
    by (simp add: circuit_evals_kernel_def c Let_def)
  have i: "circuit_evals_kernel n_data split' = circuit_evals_kernel n_data split"
    by (simp add: circuit_evals_kernel_def)
  have e: "3 * n_data < 2 ^ 53 \<longrightarrow> M = \<lceil>3 * rat_of_int n_data / 4\<rceil>"
    using ceil_075_exact [OF assms(1)] c by (simp del: power_numeral)
  have "circuit_evals_kernel n_data split = Inr (M * M + M * (n_data - M))"
    by (simp add: circuit_evals_kernel_def c Let_def)
  with c i e show ?thesis by blast
qed

text \<open>The hypotheses of C3 hold at the tutorial's own data size, \<open>n_data = 150\<close>.\<close>

theorem circuit_evals_kernel_formula_witness:
  "(0::int) \<le> 150 \<and> (150::int) < 2 ^ 1024 - 2 ^ 970
   \<and> (\<exists>M. ceil_075 150 = Inr M
           \<and> circuit_evals_kernel 150 (3::rat) = Inr (M * M + M * (150 - M))
           \<and> circuit_evals_kernel 150 (50::nat) = circuit_evals_kernel 150 (3::rat)
           \<and> (3 * (150::int) < 2 ^ 53 \<longrightarrow> M = \<lceil>3 * rat_of_int 150 / 4\<rceil>))"
proof -
  have h: "(0::int) \<le> 150" "(150::int) < 2 ^ 1024 - 2 ^ 970" by simp_all
  show ?thesis
    using h circuit_evals_kernel_formula [OF h, of "3::rat" "50::nat"] by blast
qed

text \<open>
  Claim C3 as stated, for every non-negative integer, fails at \<open>n_data = 2 ^ 1024\<close>:
  the conversion to a double inside \<open>0.75 * n_data\<close> raises \<open>OverflowError\<close>, and
  no count is returned.
\<close>

theorem circuit_evals_kernel_overflow:
  "circuit_evals_kernel (2 ^ 1024) (3 / 4 :: rat) = Inl OverflowError"
  by (simp add: circuit_evals_kernel_def ceil_075_def float_of_int_overflow del: power_numeral)

section \<open>Properties of the hinge loss and of prediction\<close>

lemma relu_entry_max: "relu_entry v = f_max (Num 0) v"
  by (cases v) (simp_all add: f_max_def)

lemma relu_entry_nonneg: "relu_entry v = NaN \<or> nonneg (relu_entry v)"
  by (cases v) (simp_all add: nonneg_def)

lemma relu_entry_NaN: "relu_entry v = NaN \<longleftrightarrow> v = NaN"
  by (cases v) simp_all

lemma hinge_loss_equal_shape:
  assumes "length predictions = length targets"
  shows "hinge_loss rnd predictions targets =
     Inr (map2 (\<lambda>p t. relu_entry (f_sub rnd (Num 1) (f_mul rnd p t))) predictions targets)"
proof -
  have "map2 (f_sub rnd) (replicate (length targets) (Num 1)) (map2 (f_mul rnd) predictions targets)
        = map2 (\<lambda>p t. f_sub rnd (Num 1) (f_mul rnd p t)) predictions targets"
    using assms by (intro nth_equalityI) simp_all
  then show ?thesis
    using assms
    by (simp add: hinge_loss_def elementwise_def ones_like_def relu_def Let_def split_def)
qed


text \<open>
  Claim C4, as the code has it. For tensors \<open>predictions\<close> and \<open>targets\<close> of equal shape,
  \<open>hinge_loss\<close> returns a tensor of that shape whose entry at each position is the
  maximum of \<open>0\<close> and \<open>1 - predictions * targets\<close> there, the maximum being the one of
  \<open>torch\<close>, which is NaN for NaN: the \<open>relu\<close> of the code computes that maximum. Every
  entry of the result is non-negative or NaN.
\<close>

theorem hinge_loss_max:
  assumes "length predictions = length targets"
  shows "\<exists>h. hinge_loss rnd predictions targets = Inr h
           \<and> length h = length targets
           \<and> (\<forall>i < length targets.
                 h ! i = f_max (Num 0) (f_sub rnd (Num 1) (f_mul rnd (predictions ! i) (targets ! i))))
           \<and> (\<forall>v \<in> set h. v = NaN \<or> nonneg v)"
proof -
  define h where
    "h = map2 (\<lambda>p t. relu_entry (f_sub rnd (Num 1) (f_mul rnd p t))) predictions targets"
  have r: "hinge_loss rnd predictions targets = Inr h"
    unfolding h_def using assms by (rule hinge_loss_equal_shape)
  have len: "length h = length targets" using assms by (simp add: h_def)
  have entry: "h ! i = f_max (Num 0) (f_sub rnd (Num 1) (f_mul rnd (predictions ! i) (targets ! i)))"
    if "i < length targets" for i
    using that assms by (simp add: h_def relu_entry_max)
  have "v = NaN \<or> nonneg v" if "v \<in> set h" for v
  proof -
    from that obtain p t where "v = relu_entry (f_sub rnd (Num 1) (f_mul rnd p t))"
      by (auto simp: h_def)
    then show ?thesis using relu_entry_nonneg by simp
  qed
  with r len entry show ?thesis by blast
qed

text \<open>
  C4 at a batch of three: a correct confident prediction, a wrong one and a marginal
  one. All numbers here and all exact results are doubles, so that rounding keeps them.
\<close>

theorem hinge_loss_max_witness:
  "length [Num 2, Num (1 / 2), Num (- 1)] = length [Num 1, Num (- 1), Num (- 1)]
   \<and> hinge_loss Num [Num 2, Num (1 / 2), Num (- 1)] [Num 1, Num (- 1), Num (- 1)]
       = Inr [Num 0, Num (3 / 2), Num 0]"
proof -
  let ?p = "[Num 2, Num (1 / 2), Num (- 1)]" and ?t = "[Num 1, Num (- 1), Num (- 1)]"
  have l: "length ?p = length ?t" by simp
  from hinge_loss_max [OF l, of Num] obtain h where
    h: "hinge_loss Num ?p ?t = Inr h" "length h = 3"
    "\<forall>i < 3. h ! i = f_max (Num 0) (f_sub Num (Num 1) (f_mul Num (?p ! i) (?t ! i)))"
    by auto
  have "h ! i = [Num 0, Num (3 / 2), Num 0] ! i" if "i < 3" for i
  proof -
    from that have "i = 0 \<or> i = 1 \<or> i = 2" by auto
    then show ?thesis using h(3) by (auto simp: f_max_def f_sub_def)
  qed
  with h(2) have "h = [Num 0, Num (3 / 2), Num 0]" by (intro nth_equalityI) simp_all
  with h(1) l show ?thesis by simp
qed

text \<open>
  Claim C4 as stated, with every entry of the result non-negative, fails for a
  prediction that is NaN: the loss at that position is NaN, which is not non-negative.
\<close>

theorem hinge_loss_nan:
  "length [NaN, Num 2] = length [Num 1, Num 1]
   \<and> hinge_loss Num [NaN, Num 2] [Num 1, Num 1] = Inr [NaN, Num 0]
   \<and> \<not> nonneg NaN"
  by (simp add: hinge_loss_def elementwise_def ones_like_def relu_def f_sub_def nonneg_def
      numeral_2_eq_2)


lemma predict_loop_ok:
  assumes "\<forall>x \<in> set xs. \<exists>v. raw_output tt rnd rc x params bias = Inr v"
  shows "predict_loop tt rnd rc xs params bias p =
     Inr (p @ map (\<lambda>x. case raw_output tt rnd rc x params bias of
                          Inr raw \<Rightarrow> if positive raw then 1 else - 1
                        | Inl e \<Rightarrow> 0) xs)"
  using assms
proof (induction xs arbitrary: p)
  case Nil
  then show ?case by simp
next
  case (Cons x xs)
  then obtain v where v: "raw_output tt rnd rc x params bias = Inr v" by auto
  have "\<forall>x \<in> set xs. \<exists>v. raw_output tt rnd rc x params bias = Inr v"
    using Cons.prems by simp
  from Cons.IH [OF this] show ?case using v by (simp add: Let_def)
qed

lemma predict_loop_error:
  assumes "i < length xs" "raw_output tt rnd rc (xs ! i) params bias = Inl e"
    and "\<forall>j < i. \<exists>v. raw_output tt rnd rc (xs ! j) params bias = Inr v"
  shows "predict_loop tt rnd rc xs params bias p = Inl e"
  using assms
proof (induction xs arbitrary: i p)
  case Nil
  then show ?case by simp
next
  case (Cons x xs)
  show ?case
  proof (cases i)
    case 0
    with Cons.prems(2) show ?thesis by simp
  next
    case (Suc i')
    from Cons.prems(3) Suc obtain v where v: "raw_output tt rnd rc x params bias = Inr v"
      by fastforce
    have "i' < length xs" "raw_output tt rnd rc (xs ! i') params bias = Inl e"
      using Cons.prems(1,2) Suc by simp_all
    moreover have "\<forall>j < i'. \<exists>v. raw_output tt rnd rc (xs ! j) params bias = Inr v"
      using Cons.prems(3) Suc by fastforce
    ultimately show ?thesis using Cons.IH v by (simp add: Let_def)
  qed
qed

text \<open>
  Claim C9, as the code has it. When the body of the loop gets a raw output for every
  input of \<open>X_pred\<close> without an exception, \<open>quantum_model_predict\<close> returns a list of
  exactly \<open>len(X_pred)\<close> labels; the label at each position is \<open>1\<close> when the raw output
  of the model with bias there is strictly positive and \<open>-1\<close> otherwise, so a raw output
  of exactly \<open>0\<close>, and one that is NaN, gives \<open>-1\<close>; and every label is \<open>1\<close> or \<open>-1\<close>.
  When the body raises for an input and not for the inputs before it,
  \<open>quantum_model_predict\<close> raises that exception and returns no list.
\<close>

theorem quantum_model_predict_labels:
  "((\<forall>x \<in> set X_pred. \<exists>v. raw_output tt rnd rc x params bias = Inr v) \<longrightarrow>
      (\<exists>p. quantum_model_predict tt rnd rc X_pred params bias = Inr p
         \<and> length p = length X_pred
         \<and> (\<forall>i < length X_pred. \<exists>raw.
               raw_output tt rnd rc (X_pred ! i) params bias = Inr raw
               \<and> p ! i = (if positive raw then 1 else - 1))
         \<and> (\<forall>l \<in> set p. l = 1 \<or> l = - 1)))
   \<and> (\<forall>i < length X_pred.
         raw_output tt rnd rc (X_pred ! i) params bias = Inl e
         \<and> (\<forall>j < i. \<exists>v. raw_output tt rnd rc (X_pred ! j) params bias = Inr v)
         \<longrightarrow> quantum_model_predict tt rnd rc X_pred params bias = Inl e)"
proof (intro conjI impI allI)
  assume ok: "\<forall>x \<in> set X_pred. \<exists>v. raw_output tt rnd rc x params bias = Inr v"
  define p where
    "p = map (\<lambda>x. case raw_output tt rnd rc x params bias of
                    Inr raw \<Rightarrow> if positive raw then 1 else - 1
                  | Inl e \<Rightarrow> (0::int)) X_pred"
  have r: "quantum_model_predict tt rnd rc X_pred params bias = Inr p"
    using predict_loop_ok [OF ok, of "[]"] by (simp add: quantum_model_predict_def p_def)
  have len: "length p = length X_pred" by (simp add: p_def)
  have entry: "\<exists>raw. raw_output tt rnd rc (X_pred ! i) params bias = Inr raw
                 \<and> p ! i = (if positive raw then 1 else - 1)" if "i < length X_pred" for i
  proof -
    from that ok obtain raw where
      "raw_output tt rnd rc (X_pred ! i) params bias = Inr raw" by fastforce
    then show ?thesis using that by (simp add: p_def)
  qed
  have "l = 1 \<or> l = - 1" if "l \<in> set p" for l
  proof -
    from that obtain i where i: "i < length X_pred" "l = p ! i"
      unfolding in_set_conv_nth len by blast
    from entry [OF i(1)] obtain raw where "p ! i = (if positive raw then 1 else - 1)" by blast
    with i(2) show ?thesis by (cases "positive raw") simp_all
  qed
  with r len entry
  show "\<exists>p. quantum_model_predict tt rnd rc X_pred params bias = Inr p
         \<and> length p = length X_pred
         \<and> (\<forall>i < length X_pred. \<exists>raw.
               raw_output tt rnd rc (X_pred ! i) params bias = Inr raw
               \<and> p ! i = (if positive raw then 1 else - 1))
         \<and> (\<forall>l \<in> set p. l = 1 \<or> l = - 1)"
    by blast
next
  fix i
  assume "i < length X_pred"
    and "raw_output tt rnd rc (X_pred ! i) params bias = Inl e
         \<and> (\<forall>j < i. \<exists>v. raw_output tt rnd rc (X_pred ! j) params bias = Inr v)"
  then show "quantum_model_predict tt rnd rc X_pred params bias = Inl e"
    unfolding quantum_model_predict_def
    by (intro predict_loop_error [of i]) simp_all
qed

text \<open>
  C9 with a circuit whose value is the first feature and inputs that are tensors
  already. Three inputs with raw outputs \<open>1/4\<close>, \<open>0\<close> and \<open>-1/4\<close>: the output \<open>0\<close> is
  labelled \<open>-1\<close>. Two inputs, the second with four features for the three qubits: the
  \<open>ValueError\<close> of the embedding is raised.
\<close>

theorem quantum_model_predict_labels_witness:
  "quantum_model_predict Inr Num
     (\<lambda>ops params. Inr (case ops of [] \<Rightarrow> Num 0 | RX v w # rest \<Rightarrow> v))
     [[Num (1 / 4), Num 0, Num 0], [Num 0, Num 0, Num 0], [Num (- 1 / 4), Num 0, Num 0]] () (Num 0)
     = Inr [1, - 1, - 1]
   \<and> quantum_model_predict Inr Num
     (\<lambda>ops params. Inr (case ops of [] \<Rightarrow> Num 0 | RX v w # rest \<Rightarrow> v))
     [[Num 1, Num 0, Num 0], [Num 0, Num 0, Num 0, Num 0]] () (Num 0)
     = Inl ValueError"
proof -
  let ?tt = "Inr :: f64 list \<Rightarrow> py_error + f64 list"
  let ?rc = "\<lambda>(ops :: operation list) (params :: unit).
               (Inr (case ops of [] \<Rightarrow> Num 0 | RX v w # rest \<Rightarrow> v) :: py_error + f64)"
  let ?X = "[[Num (1 / 4), Num 0, Num 0], [Num 0, Num 0, Num 0], [Num (- 1 / 4), Num 0, Num 0]]"
  let ?Y = "[[Num 1, Num 0, Num 0], [Num 0, Num 0, Num 0, Num 0]]"
  have q: "raw_output ?tt Num ?rc [Num a, b, c] () (Num 0) = Inr (Num a)" for a b c
    by (simp add: raw_output_def quantum_model_plus_bias_def quantum_model_def
        AngleEmbedding_def n_qubits_def)
  have q4: "raw_output ?tt Num ?rc [a, b, c, d] () (Num 0) = Inl ValueError" for a b c d
    by (simp add: raw_output_def quantum_model_plus_bias_def quantum_model_def
        AngleEmbedding_def n_qubits_def)
  have ok: "\<forall>x \<in> set ?X. \<exists>v. raw_output ?tt Num ?rc x () (Num 0) = Inr v"
    by (simp add: q)
  from quantum_model_predict_labels [of ?X ?tt Num ?rc "()" "Num 0" ValueError] ok
  obtain p where p: "quantum_model_predict ?tt Num ?rc ?X () (Num 0) = Inr p" "length p = 3"
    "\<forall>i < 3. \<exists>raw. raw_output ?tt Num ?rc (?X ! i) () (Num 0) = Inr raw
                   \<and> p ! i = (if positive raw then 1 else - 1)"
    by auto
  have e: "\<exists>raw. raw_output ?tt Num ?rc (?X ! i) () (Num 0) = Inr raw
                 \<and> p ! i = (if positive raw then 1 else - 1)" if "i < 3" for i
    using p(3) that by blast
  have p0: "p ! 0 = 1" using e [of 0] by (simp add: q)
  have p1: "p ! 1 = - 1" using e [of 1] by (simp add: q)
  have p2: "p ! 2 = - 1" using e [of 2] by (simp add: q)
  have "p ! i = [1, - 1, - 1] ! i" if "i < 3" for i
  proof -
    from that have "i = 0 \<or> i = 1 \<or> i = 2" by auto
    then show ?thesis using p0 p1 p2 by auto
  qed
  with p(2) have "p = [1, - 1, - 1]" by (intro nth_equalityI) simp_all
  with p(1) have first: "quantum_model_predict ?tt Num ?rc ?X () (Num 0) = Inr [1, - 1, - 1]"
    by simp
  have s: "1 < length ?Y" by simp
  have c: "raw_output ?tt Num ?rc (?Y ! 1) () (Num 0) = Inl ValueError
        \<and> (\<forall>j < 1. \<exists>v. raw_output ?tt Num ?rc (?Y ! j) () (Num 0) = Inr v)"
    by (simp add: q q4)
  have "quantum_model_predict ?tt Num ?rc ?Y () (Num 0) = Inl ValueError"
    by (rule quantum_model_predict_labels
        [of ?Y ?tt Num ?rc "()" "Num 0" ValueError, THEN conjunct2, rule_format, OF s c])
  with first show ?thesis by blast
qed

text \<open>
  Claim C9 as stated, for every input list, fails for a list that holds an input of four
  features: the embedding of the three-qubit model refuses it, whatever the circuit
  would return, and no list of labels is returned.
\<close>

theorem quantum_model_predict_raises:
  "quantum_model_predict Inr Num (\<lambda>ops params. Inr (Num 1))
     [[Num 0, Num 0, Num 0, Num 0]] () (Num 0) = Inl ValueError"
  by (simp add: quantum_model_predict_def raw_output_def quantum_model_plus_bias_def
      quantum_model_def AngleEmbedding_def n_qubits_def)

section \<open>The probability tensor of the boson sampling script is only read\<close>

lemma replicate4: "replicate 4 c = [c, c, c, c]"
  by (simp add: numeral_eq_Suc)

lemma run_take_Suc:
  "k < length sts \<Longrightarrow>
     run (take (Suc k) sts) s =
       (case run (take k sts) s of Inl e \<Rightarrow> Inl e | Inr s' \<Rightarrow> (sts ! k) s')"
proof (induction sts arbitrary: k s)
  case Nil
  then show ?case by simp
next
  case (Cons st sts)
  show ?case
  proof (cases k)
    case 0
    then show ?thesis by (simp split: sum.splits)
  next
    case (Suc j)
    with Cons show ?thesis by (simp split: sum.splits)
  qed
qed

lemma take_one_drop: "n < length xs \<Longrightarrow> take 1 (drop n xs) = [xs ! n]"
  by (simp add: take_Suc_conv_app_nth)

lemma getitem4:
  assumes "length out = 10000" "0 \<le> i" "i < 10" "0 \<le> j" "j < 10" "0 \<le> k" "k < 10"
    "0 \<le> l" "l < 10"
  shows "getitem \<lparr>shape = [10, 10, 10, 10], flat = out\<rparr> [i, j, k, l]
           = Inr \<lparr>shape = [], flat = [out ! (((nat i * 10 + nat j) * 10 + nat k) * 10 + nat l)]\<rparr>"
proof -
  have "((nat i * 10 + nat j) * 10 + nat k) * 10 + nat l < 10000" using assms by simp
  then have "take 1 (drop (((nat i * 10 + nat j) * 10 + nat k) * 10 + nat l) out)
             = [out ! (((nat i * 10 + nat j) * 10 + nat k) * 10 + nat l)]"
    using assms(1) by (intro take_one_drop) simp
  then show ?thesis using assms by (simp add: getitem_def Let_def)
qed

lemma square_transpose:
  assumes "length u = 4" "\<forall>row \<in> set u. length row = 4"
  shows "transpose (transpose u) = u"
proof -
  have m: "map length u = replicate 4 4"
    using assms by (intro replicate_eqI) auto
  have "sorted (rev (map length u))" unfolding m by (simp add: replicate4)
  then have "transpose (transpose u) = takeWhile (\<lambda>x. x \<noteq> []) u"
    by (rule transpose_transpose)
  also have "\<dots> = u" using assms by (intro takeWhile_eq_all_conv [THEN iffD2]) auto
  finally show ?thesis .
qed

lemma B_full_dims:
  assumes "length (U s) = 4" "\<forall>row \<in> set (U s). length row = 4"
  shows "length (B_full s) = 4" "\<forall>row \<in> set (B_full s). length row = 4"
  using assms by (auto simp: B_full_def scale_def dot_def square_transpose)

lemma submatrix_ok:
  assumes "length A = 4" "\<forall>row \<in> set A. length row = 4" "\<forall>i \<in> set idx. i < 4"
  shows "\<exists>m. submatrix A idx idx = Inr m"
  using assms by (auto simp: submatrix_def take_cols_def take_rows_def)


lemma after_stdout:
  "after u a k s \<Longrightarrow> k \<noteq> 0 \<Longrightarrow> k \<noteq> 2 \<Longrightarrow> k \<noteq> 4 \<Longrightarrow> after u a (Suc k) (s\<lparr>stdout := x\<rparr>)"
  by (auto simp: after_def B_full_def)

lemma stdout_step:
  assumes "r = Inr (s\<lparr>stdout := x\<rparr>)" "after u a k s" "k \<noteq> 0" "k \<noteq> 2" "k \<noteq> 4"
  shows "\<exists>s'. r = Inr s' \<and> after u a (Suc k) s'"
  using assms after_stdout by blast

lemma read_probs_ok:
  assumes "probs s = Some \<lparr>shape = [10, 10, 10, 10], flat = out\<rparr>" "length out = 10000"
    "0 \<le> i" "i < 10" "0 \<le> j" "j < 10" "0 \<le> k" "k < 10" "0 \<le> l" "l < 10"
  shows "\<exists>v. read_probs s [i, j, k, l] = Inr v"
  using assms getitem4 [OF assms(2-10)] by (simp add: read_probs_def)

lemma print_probs_ok:
  assumes "probs s = Some \<lparr>shape = [10, 10, 10, 10], flat = out\<rparr>" "length out = 10000"
    "0 \<le> i" "i < 10" "0 \<le> j" "j < 10" "0 \<le> k" "k < 10" "0 \<le> l" "l < 10"
  shows "\<exists>x. print_probs [i, j, k, l] s = Inr (s\<lparr>stdout := x\<rparr>)"
proof -
  from read_probs_ok [OF assms] obtain v where "read_probs s [i, j, k, l] = Inr v" by blast
  then have "print_probs [i, j, k, l] s = Inr (s\<lparr>stdout := stdout s @ [PArray v]\<rparr>)"
    by (simp add: print_probs_def print_def)
  then show ?thesis by blast
qed

lemma print_loop_ok:
  assumes "probs s = Some \<lparr>shape = [10, 10, 10, 10], flat = out\<rparr>" "length out = 10000"
    "\<forall>i \<in> set idxs. \<exists>a b c d. i = [a, b, c, d]
        \<and> 0 \<le> a \<and> a < 10 \<and> 0 \<le> b \<and> b < 10 \<and> 0 \<le> c \<and> c < 10 \<and> 0 \<le> d \<and> d < 10"
  shows "\<exists>x. print_loop idxs s = Inr (s\<lparr>stdout := x\<rparr>)"
  using assms
proof (induction idxs arbitrary: s)
  case Nil
  have "s = s\<lparr>stdout := stdout s\<rparr>" by simp
  then show ?case by (metis print_loop.simps(1))
next
  case (Cons i idxs)
  from Cons.prems(3) obtain a b c d where i: "i = [a, b, c, d]"
    "0 \<le> a" "a < 10" "0 \<le> b" "b < 10" "0 \<le> c" "c < 10" "0 \<le> d" "d < 10"
    by auto
  obtain v where v: "read_probs s i = Inr v"
    using read_probs_ok [OF Cons.prems(1,2) i(2-9)] i(1) by auto
  let ?s = "s\<lparr>stdout := stdout s @ [PFock i v]\<rparr>"
  have "probs ?s = Some \<lparr>shape = [10, 10, 10, 10], flat = out\<rparr>" using Cons.prems(1) by simp
  from Cons.IH [OF this Cons.prems(2)] Cons.prems(3)
  obtain x where "print_loop idxs ?s = Inr (?s\<lparr>stdout := x\<rparr>)" by auto
  then show ?case using v by (simp add: print_def) blast
qed

lemma step:
  assumes u: "length u = 4" "\<forall>row \<in> set u. length row = 4"
    and out: "length out = 10000"
    and k: "k < 20"
    and a: "after u \<lparr>shape = [10, 10, 10, 10], flat = out\<rparr> k s"
  shows "\<exists>s'. (script out haf ! k) s = Inr s'
           \<and> after u \<lparr>shape = [10, 10, 10, 10], flat = out\<rparr> (Suc k) s'"
proof -
  let ?a = "\<lparr>shape = [10, 10, 10, 10], flat = out\<rparr>"
  have U: "U s = u" using a by (simp add: after_def)
  have dims: "length (B_full s) = 4" "\<forall>row \<in> set (B_full s). length row = 4"
    using B_full_dims [of s] u U by simp_all
  have sub: "\<forall>i \<in> set idx. i < 4 \<Longrightarrow> \<exists>m. submatrix (B_full s) idx idx = Inr m" for idx
    using submatrix_ok [OF dims] by simp
  have so: "\<exists>s'. r = Inr s' \<and> after u ?a (Suc k) s'"
    if "r = Inr (s\<lparr>stdout := x\<rparr>)" "k \<noteq> 0" "k \<noteq> 2" "k \<noteq> 4"
    for r :: "py_error + gbs_state" and x
    using stdout_step [OF that(1) a that(2-4)] .
  have pp: "1 \<le> k \<Longrightarrow> k \<noteq> 2 \<Longrightarrow> k \<noteq> 4
      \<Longrightarrow> 0 \<le> i \<Longrightarrow> i < 10 \<Longrightarrow> 0 \<le> j \<Longrightarrow> j < 10 \<Longrightarrow> 0 \<le> m \<Longrightarrow> m < 10 \<Longrightarrow> 0 \<le> l \<Longrightarrow> l < 10
      \<Longrightarrow> \<exists>s'. print_probs [i, j, m, l] s = Inr s' \<and> after u ?a (Suc k) s'" for i j m l
  proof -
    assume h: "1 \<le> k" "k \<noteq> 2" "k \<noteq> 4"
      and r: "0 \<le> i" "i < 10" "0 \<le> j" "j < 10" "0 \<le> m" "m < 10" "0 \<le> l" "l < 10"
    then have "probs s = Some ?a" using a by (simp add: after_def)
    from print_probs_ok [OF this out r]
    obtain x where "print_probs [i, j, m, l] s = Inr (s\<lparr>stdout := x\<rparr>)" by blast
    from so [OF this] h show ?thesis by simp
  qed
  have pf: "5 \<le> k \<Longrightarrow> \<exists>s'. print_formula haf d s = Inr s' \<and> after u ?a (Suc k) s'" for d
  proof -
    assume h: "5 \<le> k"
    then obtain b where "B s = Some b" using a by (auto simp: after_def)
    then have "print_formula haf d s = Inr (s\<lparr>stdout := stdout s @ [PReal ((cmod (haf b)) ^ 2 / (d * cosh 1 ^ 4))]\<rparr>)"
      by (simp add: print_formula_def print_def)
    from so [OF this] h show ?thesis by simp
  qed
  have ab: "5 \<le> k \<Longrightarrow> \<forall>i \<in> set idx. i < 4
      \<Longrightarrow> \<exists>s'. assign_B_sub idx s = Inr s' \<and> after u ?a (Suc k) s'" for idx
  proof -
    assume h: "5 \<le> k" "\<forall>i \<in> set idx. i < 4"
    then obtain m where "submatrix (B_full s) idx idx = Inr m" using sub by blast
    then show ?thesis using a h(1) by (simp add: assign_B_sub_def after_def)
  qed
  have aB: "4 \<le> k \<Longrightarrow> \<exists>s'. assign_B s = Inr s' \<and> after u ?a (Suc k) s'"
    using a by (simp add: assign_B_def after_def B_full_def)
  from k have "k = 0 \<or> k = 1 \<or> k = 2 \<or> k = 3 \<or> k = 4 \<or> k = 5 \<or> k = 6 \<or> k = 7 \<or> k = 8 \<or> k = 9
      \<or> k = 10 \<or> k = 11 \<or> k = 12 \<or> k = 13 \<or> k = 14 \<or> k = 15 \<or> k = 16 \<or> k = 17 \<or> k = 18 \<or> k = 19"
    by presburger
  then consider (c0) "k = 0" | (c1) "k = 1" | (c2) "k = 2" | (c3) "k = 3" | (c5) "k = 5" | (c6) "k = 6"
    | (cB) "k = 4 \<or> k = 14"
    | (cP) "k = 7 \<or> k = 10 \<or> k = 13 \<or> k = 16 \<or> k = 19"
    | (cS) "k = 8 \<or> k = 11 \<or> k = 17"
    | (cF) "k = 9 \<or> k = 12 \<or> k = 15 \<or> k = 18"
    by blast
  then show ?thesis
  proof cases
    case c0
    have "reshape out (replicate n_wires cutoff) = Inr ?a"
      using out by (simp add: reshape_def n_wires_def cutoff_def replicate4)
    then show ?thesis using a c0 by (simp add: script_def assign_probs_def after_def)
  next
    case c1
    then have "probs s = Some ?a" using a by (simp add: after_def)
    then have "print_shape s = Inr (s\<lparr>stdout := stdout s @ [PShape [10, 10, 10, 10]]\<rparr>)"
      by (simp add: print_shape_def print_def)
    from so [OF this] c1 show ?thesis by (simp add: script_def)
  next
    case c2
    then show ?thesis using a by (simp add: script_def assign_measure_states_def after_def)
  next
    case c3
    then have p: "probs s = Some ?a"
      and m: "measure_states s = Some [[0,0,0,0], [1,1,0,0], [0,1,0,1], [1,1,1,1], [2,0,0,0]]"
      using a by (simp_all add: after_def)
    have "\<exists>x. print_loop [[0,0,0,0], [1,1,0,0], [0,1,0,1], [1,1,1,1], [2,0,0,0]] s
               = Inr (s\<lparr>stdout := x\<rparr>)"
      by (rule print_loop_ok [OF p out]) simp
    then obtain x where "print_measure_states s = Inr (s\<lparr>stdout := x\<rparr>)"
      by (auto simp: print_measure_states_def m)
    from so [OF this] c3 show ?thesis by (simp add: script_def)
  next
    case c5
    then have "B s = Some (B_full s)" using a by (simp add: after_def)
    moreover obtain m where "submatrix (B_full s) [0, 1] [0, 1] = Inr m"
      using sub [of "[0, 1]"] by auto
    ultimately have "print_B_sub s = Inr (s\<lparr>stdout := stdout s @ [PMatrix m]\<rparr>)"
      by (simp add: print_B_sub_def print_def)
    from so [OF this] c5 show ?thesis by (simp add: script_def)
  next
    case c6
    have "print_vacuum s = Inr (s\<lparr>stdout := stdout s @ [PReal (1 / cosh 1 ^ 4)]\<rparr>)"
      by (simp add: print_vacuum_def print_def)
    from so [OF this] c6 show ?thesis by (simp add: script_def)
  next
    case cB
    then show ?thesis using aB by (auto simp: script_def)
  next
    case cP
    then show ?thesis
      using pp [of 0 0 0 0] pp [of 1 1 0 0] pp [of 0 1 0 1] pp [of 1 1 1 1] pp [of 2 0 0 0]
      by (auto simp: script_def)
  next
    case cS
    then show ?thesis
      using ab [of "[0, 1]"] ab [of "[1, 3]"] ab [of "[0, 0]"] by (auto simp: script_def)
  next
    case cF
    then show ?thesis using pf [of 1] pf [of 2] by (auto simp: script_def)
  qed
qed


lemma run_prefix:
  assumes u: "length u = 4" "\<forall>row \<in> set u. length row = 4"
    and out: "length out = 10000"
    and s: "U s = u"
    and k: "k \<le> 20"
  shows "\<exists>s'. run (take k (script out haf)) s = Inr s'
           \<and> after u \<lparr>shape = [10, 10, 10, 10], flat = out\<rparr> k s'"
  using k
proof (induction k)
  case 0
  then show ?case using s by (simp add: after_def)
next
  case (Suc k)
  then obtain s' where s': "run (take k (script out haf)) s = Inr s'"
    "after u \<lparr>shape = [10, 10, 10, 10], flat = out\<rparr> k s'" by auto
  have len: "length (script out haf) = 20" by (simp add: script_def)
  from Suc.prems have "k < 20" by simp
  from step [OF u out this s'(2)] obtain s'' where
    "(script out haf ! k) s' = Inr s''" "after u \<lparr>shape = [10, 10, 10, 10], flat = out\<rparr> (Suc k) s''"
    by blast
  then show ?case
    using run_take_Suc [of k "script out haf" s] \<open>k < 20\<close> len s'(1) by simp
qed

text \<open>
  Claim C6. Let the script reach line 245 with \<open>U\<close> a 4 by 4 matrix and let the circuit
  return \<open>cutoff ^ n_wires\<close> probabilities. Then the first statement binds \<open>probs\<close> to
  their reshaped array, and after every later statement, up to the last one, the script
  has not raised and \<open>probs\<close> still holds that same array: the later statements only read
  it by index.
\<close>

theorem probs_unchanged:
  assumes "length (U s) = n_wires" and "\<forall>row \<in> set (U s). length row = n_wires"
    and "length circuit_output = cutoff ^ n_wires"
    and "1 \<le> k" and "k \<le> length (script circuit_output haf)"
  shows "\<exists>s'. run (take k (script circuit_output haf)) s = Inr s'
           \<and> probs s' = Some \<lparr>shape = replicate n_wires cutoff, flat = circuit_output\<rparr>"
proof -
  have len: "length (script circuit_output haf) = 20" by (simp add: script_def)
  have out: "length circuit_output = 10000"
    using assms(3) by (simp add: cutoff_def n_wires_def)
  have u: "length (U s) = 4" "\<forall>row \<in> set (U s). length row = 4"
    using assms(1,2) by (simp_all add: n_wires_def)
  have "k \<le> 20" using assms(5) len by simp
  from run_prefix [OF u out refl this, of haf] obtain s' where
    "run (take k (script circuit_output haf)) s = Inr s'"
    "after (U s) \<lparr>shape = [10, 10, 10, 10], flat = circuit_output\<rparr> k s'" by blast
  then show ?thesis
    using assms(4) by (simp add: after_def n_wires_def cutoff_def replicate4)
qed

text \<open>
  C6 at the end of the script (\<open>k = 20\<close>), for the identity interferometer and a circuit
  output of \<open>10000\<close> zeros.
\<close>

theorem probs_unchanged_witness:
  "\<exists>s'. run (take 20 (script (replicate 10000 0) (\<lambda>b. 0)))
            (initial [[1, 0, 0, 0], [0, 1, 0, 0], [0, 0, 1, 0], [0, 0, 0, 1]]) = Inr s'
        \<and> probs s' = Some \<lparr>shape = replicate n_wires cutoff, flat = replicate 10000 0\<rparr>"
  using probs_unchanged
    [of "initial [[1, 0, 0, 0], [0, 1, 0, 0], [0, 0, 1, 0], [0, 0, 0, 1]]"
        "replicate 10000 0" 20 "\<lambda>b. 0"]
  by (simp add: initial_def n_wires_def cutoff_def script_def)

section \<open>Properties of the order of the steps\<close>

lemma steps_of_append: "steps_of (xs @ ys) = steps_of xs @ steps_of ys"
  by (induction xs) (simp_all split: option.splits)

lemma ordered_from_skip:
  assumes "Configure c \<notin> set xs" "Define c \<notin> set xs" "Execute c \<notin> set xs"
    "PostProcess c \<notin> set xs" "Output (Result c) \<notin> set xs"
  shows "ordered_from q c (xs @ es) = ordered_from q c es"
  using assms by (induction xs) auto

lemma set_train_loop:
  "set (train_loop i n) \<subseteq> {Execute Quantum_model, PostProcess Quantum_model, Output (Result Quantum_model)}"
  by (induction i n rule: train_loop.induct) (auto simp: closure_def)

lemma ordered_from_closure:
  "ordered_from q Quantum_model (closure i @ es) = (2 \<le> q \<and> ordered_from 3 Quantum_model es)"
  by (simp add: closure_def)

lemma ordered_from_train_loop:
  "ordered_from 3 Quantum_model (train_loop i n @ es) = ordered_from 3 Quantum_model es"
  by (induction i n rule: train_loop.induct) (simp_all add: ordered_from_closure)

lemma ordered_from_train:
  "ordered_from 2 Quantum_model (quantum_model_train 80 @ es) = ordered_from 3 Quantum_model es"
proof -
  have "train_loop 0 80 = closure 0 @ train_loop 1 79"
    using train_loop.simps(2) [of 0 79] by simp
  then show ?thesis
    by (simp add: quantum_model_train_def ordered_from_closure ordered_from_train_loop)
qed

lemma ordered_from_predict:
  "ordered_from 3 Quantum_model (predict_events n @ es) = ordered_from 3 Quantum_model es"
  by (induction n) (simp_all add: predict_events_def)

lemma print_states_5: "print_states 5 = replicate 5 (Output (Result Gbs_circuit))"
  by (simp add: numeral_eq_Suc)

lemma replicate5: "replicate 5 x = [x, x, x, x, x]"
  by (simp add: numeral_eq_Suc)

lemma gbs_in_order: "in_step_order gbs_script"
  by (simp add: in_step_order_def gbs_script_def compare_state_def print_states_5 replicate5)

lemma gbs_circuit_ordered: "circuit_ordered Gbs_circuit gbs_script"
  by (simp add: circuit_ordered_def gbs_script_def compare_state_def print_states_5 replicate5)

lemma kernel_circuit_ordered: "circuit_ordered Kernel_circuit (kernel_script n_test)"
proof -
  have "ordered_from 3 Kernel_circuit (variational_part n_test @ scaling_part @ [])
        = ordered_from 3 Kernel_circuit []"
    unfolding append_assoc [symmetric]
  proof (rule ordered_from_skip)
    have s: "set (variational_part n_test @ scaling_part)
             \<subseteq> {Configure Quantum_model, Define Quantum_model, Execute Quantum_model,
                 PostProcess Quantum_model, Output (Result Quantum_model), Compute, Output Counts}"
      using set_train_loop [of 0 80]
      by (auto simp: variational_part_def scaling_part_def quantum_model_train_def predict_events_def)
    show "Configure Kernel_circuit \<notin> set (variational_part n_test @ scaling_part)"
      "Define Kernel_circuit \<notin> set (variational_part n_test @ scaling_part)"
      "Execute Kernel_circuit \<notin> set (variational_part n_test @ scaling_part)"
      "PostProcess Kernel_circuit \<notin> set (variational_part n_test @ scaling_part)"
      "Output (Result Kernel_circuit) \<notin> set (variational_part n_test @ scaling_part)"
      using s by auto
  qed
  then show ?thesis
    by (simp add: circuit_ordered_def kernel_script_def kernel_part_def)
qed

lemma quantum_model_ordered: "circuit_ordered Quantum_model (kernel_script n_test)"
proof -
  have sc: "ordered_from 3 Quantum_model (scaling_part @ []) = ordered_from 3 Quantum_model []"
    by (rule ordered_from_skip) (auto simp: scaling_part_def)
  have "ordered_from 0 Quantum_model (variational_part n_test @ scaling_part)"
    using sc by (simp add: variational_part_def ordered_from_train ordered_from_predict)
  then show ?thesis
    by (simp add: circuit_ordered_def kernel_script_def kernel_part_def)
qed

lemma kernel_script_prefix:
  "kernel_script n_test =
     [Configure Kernel_circuit, Define Kernel_circuit, Execute Kernel_circuit,
      Execute Kernel_circuit, PostProcess Kernel_circuit, Execute Kernel_circuit,
      PostProcess Kernel_circuit, PostProcess Kernel_circuit, Compute,
      Configure Quantum_model, Define Quantum_model,
      Execute Quantum_model, PostProcess Quantum_model, Output (Result Quantum_model),
      Execute Quantum_model]
     @ train_loop 1 79 @ predict_events n_test
     @ [PostProcess Quantum_model, Output (Result Quantum_model), Output (Result Quantum_model)]
     @ scaling_part"
proof -
  have "train_loop 0 80 = closure 0 @ train_loop 1 79"
    using train_loop.simps(2) [of 0 79] by simp
  then show ?thesis
    by (simp add: kernel_script_def kernel_part_def variational_part_def quantum_model_train_def
        closure_def)
qed

text \<open>
  Where the kernel script leaves the order of the steps: the kernel circuit is executed
  for the prediction (event 5) after the post-processing of the fit (event 4); the
  device of the variational circuit is configured (event 9) after the kernel circuit
  was executed; and the loss of the first training step is printed (event 13) before the
  circuit is executed again for the gradient (event 14).
\<close>

lemma kernel_script_interleaved:
  "kernel_script n_test ! 4 = PostProcess Kernel_circuit
   \<and> kernel_script n_test ! 5 = Execute Kernel_circuit
   \<and> kernel_script n_test ! 9 = Configure Quantum_model
   \<and> kernel_script n_test ! 13 = Output (Result Quantum_model)
   \<and> kernel_script n_test ! 14 = Execute Quantum_model"
  unfolding kernel_script_prefix by (simp add: nth_append)

text \<open>
  Claim C5. The boson sampling script goes through the steps (a) to (e) once, in this
  order. In both scripts, for each circuit, the device is configured first, then the
  circuit is defined, the circuit is executed only after that, and its results are
  post-processed, printed or plotted only after it has been executed. (The kernel script
  as a whole is not one sequence of the steps in this order, see below.)
\<close>

theorem script_step_order:
  "in_step_order gbs_script
   \<and> circuit_ordered Gbs_circuit gbs_script
   \<and> circuit_ordered Kernel_circuit (kernel_script n_test)
   \<and> circuit_ordered Quantum_model (kernel_script n_test)"
  using gbs_in_order gbs_circuit_ordered kernel_circuit_ordered quantum_model_ordered
  by blast

text \<open>
  Claim C5 as stated fails for the kernel script, here with the \<open>38\<close> test inputs of the
  tutorial's split: the kernel circuit is executed for the prediction after the
  post-processing of the fit, the second device is configured after the first circuit
  was executed, and the training loss is printed between executions.
\<close>

theorem kernel_script_not_in_step_order: "\<not> in_step_order (kernel_script 38)"
  by (simp add: in_step_order_def kernel_script_def kernel_part_def steps_of_append sorted_append)

end
